theory Spec2Isabelle
  imports Main "HOL-Library.Word"
begin

unbundle bit_operations_syntax

section \<open>The keyword consumer \<open>consumers/consumer_dowdle.py\<close>\<close>

text \<open>
  The consumer reads JSON records from a Kafka topic and keeps one occurrence count per
  keyword in two files of the directory \<open>data\<close>: the SQLite database
  \<open>dowdle.sqlite\<close> and the JSON document \<open>dowdle_live.json\<close>. The embedding
  passes the content of the two files explicitly from call to call; an exception that
  leaves a function is the \<open>Inl\<close> of its result. Calls of \<open>logger\<close> write to
  neither file and are left out.
\<close>

subsection \<open>Strings\<close>

text \<open>
  A Python \<open>str\<close> is the list of its code points. \<open>json.loads\<close> also yields
  strings with a lone surrogate (the JSON text \<open>"\ud800"\<close>), which UTF-8 cannot
  encode. \<open>str\<close> turns a literal of this theory into such a string.
\<close>

type_synonym pystr = "nat list"

definition str :: "string \<Rightarrow> pystr" where
  "str s = map of_char s"

definition is_surrogate :: "nat \<Rightarrow> bool" where
  "is_surrogate c = (0xD800 \<le> c \<and> c \<le> 0xDFFF)"

definition utf8_encodable :: "pystr \<Rightarrow> bool" where
  "utf8_encodable s = list_all (\<lambda>c. \<not> is_surrogate c) s"

text \<open>The decimal text of an integer, as \<open>str(n)\<close> and as SQLite's cast to TEXT.\<close>

function digits :: "nat \<Rightarrow> pystr" where
  "digits n = (if n < 10 then [48 + n] else digits (n div 10) @ [48 + n mod 10])"
  by pat_completeness auto
termination
  by (relation "measure id") auto

declare digits.simps [simp del]

definition int_text :: "int \<Rightarrow> pystr" where
  "int_text n = (if n < 0 then 45 # digits (nat (- n)) else digits (nat n))"

subsection \<open>Decoded record values\<close>

text \<open>
  \<open>json.loads\<close> yields \<open>None\<close>, \<open>bool\<close>, \<open>int\<close>, \<open>float\<close>, \<open>str\<close>,
  \<open>list\<close> and \<open>dict\<close> values. An \<open>int\<close> is unbounded. A \<open>float\<close> is kept as
  its IEEE 754 binary64 bit pattern. A \<open>dict\<close> is the list of its items, with distinct
  keys.
\<close>

datatype json =
    JNull
  | JBool bool
  | JInt int
  | JFloat "64 word"
  | JStr pystr
  | JList "json list"
  | JDict "(pystr \<times> json) list"

text \<open>
  Python's truth test, as \<open>not keyword\<close> applies it: \<open>None\<close>, \<open>False\<close>, a zero
  number, and an empty string, list or dict are false. The two zeros of a float are the
  bit patterns \<open>0\<close> and \<open>0x8000000000000000\<close>.
\<close>

fun truthy :: "json \<Rightarrow> bool" where
  "truthy JNull = False"
| "truthy (JBool b) = b"
| "truthy (JInt n) = (n \<noteq> 0)"
| "truthy (JFloat w) = (w \<noteq> 0 \<and> w \<noteq> 0x8000000000000000)"
| "truthy (JStr s) = (s \<noteq> [])"
| "truthy (JList xs) = (xs \<noteq> [])"
| "truthy (JDict kvs) = (kvs \<noteq> [])"

text \<open>
  A float is a NaN when its exponent bits are all set and its fraction is not zero.
  The text of a float is floating-point formatting, which the embedding does not
  compute: \<open>float_texts\<close> is a fixed function of which nothing is known. Its first
  component stands for the text that SQLite stores for a REAL in a TEXT column
  (\<open>1.0e+100\<close>), its second for Python's \<open>repr\<close> (\<open>1e+100\<close>).
\<close>

definition is_nan :: "64 word \<Rightarrow> bool" where
  "is_nan w = (0x7FF0000000000000 < (w AND 0x7FFFFFFFFFFFFFFF))"

definition float_texts :: "64 word \<Rightarrow> pystr \<times> pystr" where
  "float_texts = undefined"

definition real_text :: "64 word \<Rightarrow> pystr" where
  "real_text w = fst (float_texts w)"

definition float_repr :: "64 word \<Rightarrow> pystr" where
  "float_repr w = snd (float_texts w)"

text \<open>
  \<open>process_message(message: dict)\<close> takes the decoded record, a dict.
  \<open>message.get(key)\<close> is the value stored under \<open>key\<close>, or \<open>None\<close>.
\<close>

type_synonym message = "(pystr \<times> json) list"

definition dict_get :: "message \<Rightarrow> pystr \<Rightarrow> json" where
  "dict_get message key = (case map_of message key of None \<Rightarrow> JNull | Some v \<Rightarrow> v)"

subsection \<open>The two files\<close>

text \<open>
  A table of counts maps a keyword to its count. The database file either has no table
  \<open>keyword_counts\<close> (a database that \<open>sqlite3.connect\<close> has just created) or has
  the table with its rows. The column \<open>keyword\<close> is the primary key, so there is one
  row per keyword text; SQLite lets any number of rows have NULL in such a column, and
  the second component counts these rows, each of which has the count 1. A run would
  need \<open>2 ^ 63\<close> events of one keyword after the startup to reach the limit of an
  SQLite INTEGER; counts are modelled as \<open>int\<close>.

  The JSON file holds the document that \<open>json.dump\<close> wrote, or nothing at all between
  \<open>open(json_path, "w")\<close> and the write: opening a file for writing truncates it. A
  document is kept as the mapping that \<open>json.load\<close> reads from it: where the text has
  a key twice, the later item counts.
\<close>

type_synonym counts = "pystr \<rightharpoonup> int"

datatype database = No_table | Keyword_counts counts nat

datatype snapshot = Truncated | Document counts

record files =
  sqlite_file :: "database option"
  json_file :: "snapshot option"

datatype error =
    OperationalError
  | ProgrammingError
  | OverflowError
  | UnicodeEncodeError
  | JSONDecodeError
  | TypeError

subsection \<open>Database setup\<close>

text \<open>
  \<open>sqlite3.connect(db_path)\<close> opens the database file and creates an empty database
  when the file is absent.
\<close>

definition connect :: "files \<Rightarrow> database" where
  "connect fs = (case sqlite_file fs of None \<Rightarrow> No_table | Some db \<Rightarrow> db)"

text \<open>
  \<open>init_db\<close>, lines 46 to 60: \<open>CREATE TABLE IF NOT EXISTS\<close> creates the empty table
  and keeps a table that is already there, with its rows.
\<close>

definition init_db :: "files \<Rightarrow> files" where
  "init_db fs =
     (case connect fs of
        No_table \<Rightarrow> fs\<lparr>sqlite_file := Some (Keyword_counts Map.empty 0)\<rparr>
      | Keyword_counts rows nulls \<Rightarrow> fs\<lparr>sqlite_file := Some (Keyword_counts rows nulls)\<rparr>)"

text \<open>
  The value that the column \<open>keyword\<close> receives for the parameter of line 73, as
  \<open>sqlite3\<close> binds it and the TEXT column converts it: a \<open>str\<close> is encoded in
  UTF-8, which raises \<open>UnicodeEncodeError\<close> for a lone surrogate; an \<open>int\<close> or
  \<open>bool\<close> becomes the decimal text of a 64-bit integer, and a larger \<open>int\<close>
  raises \<open>OverflowError\<close>; a \<open>float\<close> becomes its text, and NULL when it is a NaN;
  \<open>None\<close> is NULL; a \<open>list\<close> or \<open>dict\<close> raises \<open>sqlite3.ProgrammingError\<close>.
  The result \<open>None\<close> stands for NULL.
\<close>

definition bind_keyword :: "json \<Rightarrow> error + pystr option" where
  "bind_keyword keyword =
     (case keyword of
        JNull \<Rightarrow> Inr None
      | JBool b \<Rightarrow> Inr (Some (int_text (if b then 1 else 0)))
      | JInt n \<Rightarrow>
          if - (2 ^ 63) \<le> n \<and> n < 2 ^ 63 then Inr (Some (int_text n)) else Inl OverflowError
      | JFloat w \<Rightarrow> Inr (if is_nan w then None else Some (real_text w))
      | JStr s \<Rightarrow> if utf8_encodable s then Inr (Some s) else Inl UnicodeEncodeError
      | JList xs \<Rightarrow> Inl ProgrammingError
      | JDict kvs \<Rightarrow> Inl ProgrammingError)"

text \<open>
  \<open>update_keyword_count\<close>, lines 63 to 76. The parameter is declared \<open>str\<close>, and
  \<open>process_message\<close> passes whatever truthy value the record holds. Without the table
  the statement cannot be prepared: \<open>sqlite3.OperationalError\<close> (no such table),
  before the parameter is bound. Otherwise
  \<open>INSERT ... VALUES (?, 1) ON CONFLICT(keyword) DO UPDATE SET count = count + 1\<close>
  inserts the keyword text with count 1 or adds 1 to the count of its row; a NULL never
  conflicts and makes one more row.
\<close>

definition update_keyword_count :: "files \<Rightarrow> json \<Rightarrow> error + files" where
  "update_keyword_count fs keyword =
     (case connect fs of
        No_table \<Rightarrow> Inl OperationalError
      | Keyword_counts rows nulls \<Rightarrow>
          (case bind_keyword keyword of
             Inl e \<Rightarrow> Inl e
           | Inr None \<Rightarrow> Inr (fs\<lparr>sqlite_file := Some (Keyword_counts rows (nulls + 1))\<rparr>)
           | Inr (Some k) \<Rightarrow>
               Inr (fs\<lparr>sqlite_file := Some (Keyword_counts
                      (rows(k \<mapsto> (case rows k of None \<Rightarrow> 1 | Some c \<Rightarrow> c + 1))) nulls)\<rparr>)))"

subsection \<open>JSON file handling\<close>

text \<open>
  Lines 85 to 89 of \<open>update_json_file\<close>: the counts are loaded from the file when it
  exists and are the empty dict otherwise. \<open>json.load\<close> raises
  \<open>json.JSONDecodeError\<close> on an empty file.
\<close>

definition load_counts :: "files \<Rightarrow> error + counts" where
  "load_counts fs =
     (case json_file fs of
        None \<Rightarrow> Inr Map.empty
      | Some Truncated \<Rightarrow> Inl JSONDecodeError
      | Some (Document c) \<Rightarrow> Inr c)"

text \<open>
  The key that \<open>json.dump\<close> writes for a dict key that is not a \<open>str\<close>.
\<close>

definition json_key :: "json \<Rightarrow> pystr" where
  "json_key keyword =
     (case keyword of
        JNull \<Rightarrow> str ''null''
      | JBool b \<Rightarrow> (if b then str ''true'' else str ''false'')
      | JInt n \<Rightarrow> int_text n
      | JFloat w \<Rightarrow> float_repr w
      | JStr s \<Rightarrow> s
      | JList xs \<Rightarrow> []
      | JDict kvs \<Rightarrow> [])"

text \<open>
  Line 91, \<open>counts[keyword] = counts.get(keyword, 0) + 1\<close>, and what the dict is
  written as. The loaded dict has \<open>str\<close> keys only. A \<open>str\<close> keyword gets its count
  plus 1. A \<open>list\<close> or \<open>dict\<close> cannot be hashed: \<open>TypeError\<close>. Any other keyword
  equals no key of the dict, so it is added with the count 1, after the loaded entries;
  \<open>json.dump\<close> writes its key as text, and the document then reads with the count 1
  under that text, also when the text was a key before.
\<close>

definition new_counts :: "counts \<Rightarrow> json \<Rightarrow> error + counts" where
  "new_counts c keyword =
     (case keyword of
        JStr k \<Rightarrow> Inr (c(k \<mapsto> (case c k of None \<Rightarrow> 0 | Some n \<Rightarrow> n) + 1))
      | JList xs \<Rightarrow> Inl TypeError
      | JDict kvs \<Rightarrow> Inl TypeError
      | _ \<Rightarrow> Inr (c(json_key keyword \<mapsto> 1)))"

text \<open>Line 93, \<open>open(json_path, "w")\<close>, creates or empties the file.\<close>

definition open_w :: "files \<Rightarrow> files" where
  "open_w fs = fs\<lparr>json_file := Some Truncated\<rparr>"

text \<open>Line 94, \<open>json.dump(counts, f, indent=4)\<close>, writes the whole dict.\<close>

definition json_dump :: "counts \<Rightarrow> files \<Rightarrow> files" where
  "json_dump c fs = fs\<lparr>json_file := Some (Document c)\<rparr>"

text \<open>\<open>update_json_file\<close>, lines 83 to 94: load, count, then rewrite the file.\<close>

definition update_json_file :: "files \<Rightarrow> json \<Rightarrow> error + files" where
  "update_json_file fs keyword =
     (case load_counts fs of
        Inl e \<Rightarrow> Inl e
      | Inr c \<Rightarrow>
          (case new_counts c keyword of
             Inl e \<Rightarrow> Inl e
           | Inr c' \<Rightarrow> Inr (json_dump c' (open_w fs))))"

subsection \<open>Processing one message\<close>

text \<open>
  \<open>process_message\<close>, lines 101 to 112. A message without a truthy
  \<open>keyword_mentioned\<close> is logged and dropped. Otherwise the database is updated
  first and the JSON file second, with whatever the keyword is; an exception of the
  first update skips the second.
\<close>

definition process_message :: "message \<Rightarrow> files \<Rightarrow> error + files" where
  "process_message message fs =
     (let keyword = dict_get message (str ''keyword_mentioned'') in
      if \<not> truthy keyword then Inr fs
      else (case update_keyword_count fs keyword of
              Inl e \<Rightarrow> Inl e
            | Inr fs1 \<Rightarrow> update_json_file fs1 keyword))"

subsection \<open>The consumption loop and \<open>main\<close>\<close>

text \<open>
  \<open>consume_messages\<close>, lines 119 to 136. Steps 1 to 3 call the Kafka helpers of
  \<open>utils\<close>; the embedding starts at step 4 with the values of the records that the
  consumer delivers, in order. The loop has no exception handler: the first exception of
  \<open>process_message\<close> leaves the loop and the function.
\<close>

fun consume_messages :: "message list \<Rightarrow> files \<Rightarrow> error + files" where
  "consume_messages [] fs = Inr fs"
| "consume_messages (msg # records) fs =
     (case process_message msg fs of
        Inl e \<Rightarrow> Inl e
      | Inr fs' \<Rightarrow> consume_messages records fs')"

text \<open>
  Lines 145 to 153 of \<open>main\<close>: both files of an earlier run are unlinked when they
  exist, then \<open>init_db\<close> creates the database afresh.
\<close>

definition startup :: "files \<Rightarrow> files" where
  "startup fs =
     (let fs1 = (if sqlite_file fs \<noteq> None then fs\<lparr>sqlite_file := None\<rparr> else fs);
          fs2 = (if json_file fs1 \<noteq> None then fs1\<lparr>json_file := None\<rparr> else fs1)
      in init_db fs2)"

definition main :: "message list \<Rightarrow> files \<Rightarrow> error + files" where
  "main records fs = consume_messages records (startup fs)"

subsection \<open>Reading the two stores\<close>

text \<open>
  The rows of the table \<open>keyword_counts\<close> that have a keyword, when the database has
  the table, and the count of one keyword in a table of counts, 0 for a keyword without
  an entry. The counts of the JSON file are read by \<open>load_counts\<close>, as the program
  itself reads them.
\<close>

definition db_counts :: "files \<Rightarrow> counts option" where
  "db_counts fs =
     (case sqlite_file fs of Some (Keyword_counts rows nulls) \<Rightarrow> Some rows | _ \<Rightarrow> None)"

definition db_nulls :: "files \<Rightarrow> nat" where
  "db_nulls fs =
     (case sqlite_file fs of Some (Keyword_counts rows nulls) \<Rightarrow> nulls | _ \<Rightarrow> 0)"

definition count_of :: "counts \<Rightarrow> pystr \<Rightarrow> int" where
  "count_of c k = (case c k of None \<Rightarrow> 0 | Some n \<Rightarrow> n)"

definition db_count :: "files \<Rightarrow> pystr \<Rightarrow> int" where
  "db_count fs k = (case db_counts fs of None \<Rightarrow> 0 | Some rows \<Rightarrow> count_of rows k)"

definition json_count :: "files \<Rightarrow> pystr \<Rightarrow> int" where
  "json_count fs k = (case load_counts fs of Inl e \<Rightarrow> 0 | Inr c \<Rightarrow> count_of c k)"

subsection \<open>Valid events\<close>

text \<open>
  A valid event carries a non-empty string under \<open>keyword_mentioned\<close>;
  \<open>keyword_of\<close> is that string.
\<close>

definition valid_event :: "message \<Rightarrow> bool" where
  "valid_event message =
     (case dict_get message (str ''keyword_mentioned'') of JStr k \<Rightarrow> k \<noteq> [] | _ \<Rightarrow> False)"

definition keyword_of :: "message \<Rightarrow> pystr" where
  "keyword_of message =
     (case dict_get message (str ''keyword_mentioned'') of JStr k \<Rightarrow> k | _ \<Rightarrow> [])"

text \<open>
  A record respects the declaration \<open>keyword: str\<close> of the two store updates when
  its \<open>keyword_mentioned\<close> is a string or is not truthy, so that it is dropped.
\<close>

definition str_keyword :: "message \<Rightarrow> bool" where
  "str_keyword message =
     (case dict_get message (str ''keyword_mentioned'') of
        JStr k \<Rightarrow> True
      | v \<Rightarrow> \<not> truthy v)"

text \<open>The number of occurrences of each keyword in a list of keywords, as a table.\<close>

definition occurrences :: "pystr list \<Rightarrow> counts" where
  "occurrences ks = (\<lambda>k. if k \<in> set ks then Some (int (count_list ks k)) else None)"

text \<open>Adding one occurrence of each keyword of a list to a table, in order.\<close>

fun add_all :: "counts \<Rightarrow> pystr list \<Rightarrow> counts" where
  "add_all c [] = c"
| "add_all c (k # ks) = add_all (c(k \<mapsto> count_of c k + 1)) ks"

subsection \<open>The states a run passes through\<close>

text \<open>
  Inside \<open>update_json_file\<close>, lines 93 and 94 change the JSON file twice:
  \<open>update_json_file_steps\<close> lists the state after the file is opened for writing
  and the state after the dump.
\<close>

definition update_json_file_steps :: "files \<Rightarrow> json \<Rightarrow> files list" where
  "update_json_file_steps fs keyword =
     (case load_counts fs of
        Inl e \<Rightarrow> []
      | Inr c \<Rightarrow>
          (case new_counts c keyword of
             Inl e \<Rightarrow> []
           | Inr c' \<Rightarrow> [open_w fs, json_dump c' (open_w fs)]))"

text \<open>
  \<open>process_points\<close> lists the states of the two files that \<open>process_message\<close>
  passes through, in order: the state after the database update of line 111, then the
  two states of the JSON update of line 112; none when the message is dropped or the
  database update raises. \<open>consume_points\<close> does so for the loop, and
  \<open>main_points\<close> for a whole run, from the state that the startup of \<open>main\<close>
  leaves. The last point is the state in which the run ends.
\<close>

definition process_points :: "message \<Rightarrow> files \<Rightarrow> files list" where
  "process_points message fs =
     (let keyword = dict_get message (str ''keyword_mentioned'') in
      if \<not> truthy keyword then []
      else (case update_keyword_count fs keyword of
              Inl e \<Rightarrow> []
            | Inr fs1 \<Rightarrow> fs1 # update_json_file_steps fs1 keyword))"

fun consume_points :: "message list \<Rightarrow> files \<Rightarrow> files list" where
  "consume_points [] fs = []"
| "consume_points (msg # records) fs =
     process_points msg fs @
     (case process_message msg fs of
        Inl e \<Rightarrow> []
      | Inr fs' \<Rightarrow> consume_points records fs')"

definition main_points :: "message list \<Rightarrow> files \<Rightarrow> files list" where
  "main_points records fs = startup fs # consume_points records (startup fs)"

text \<open>
  The keywords that have an entry in each store, and the orders of two states of the
  files in which, for one store, no count is lower and no entry is missing in the second.
\<close>

definition db_keys :: "files \<Rightarrow> pystr set" where
  "db_keys fs = (case db_counts fs of None \<Rightarrow> {} | Some rows \<Rightarrow> dom rows)"

definition json_keys :: "files \<Rightarrow> pystr set" where
  "json_keys fs = (case load_counts fs of Inl e \<Rightarrow> {} | Inr c \<Rightarrow> dom c)"

definition db_le :: "files \<Rightarrow> files \<Rightarrow> bool" where
  "db_le fs fs' =
     ((\<forall>k. db_count fs k \<le> db_count fs' k) \<and> db_keys fs \<subseteq> db_keys fs' \<and>
      db_nulls fs \<le> db_nulls fs')"

definition json_le :: "files \<Rightarrow> files \<Rightarrow> bool" where
  "json_le fs fs' =
     ((\<forall>k. json_count fs k \<le> json_count fs' k) \<and> json_keys fs \<subseteq> json_keys fs')"

text \<open>
  The JSON file is absent or holds a document, so that the program can load its counts;
  it is not the emptied file between \<open>open(json_path, "w")\<close> and the dump.
\<close>

definition snapshot_readable :: "files \<Rightarrow> bool" where
  "snapshot_readable fs = (json_file fs \<noteq> Some Truncated)"

subsection \<open>Example data\<close>

definition python_event :: message where
  "python_event = [(str ''keyword_mentioned'', JStr (str ''python''))]"

definition rust_event :: message where
  "rust_event = [(str ''keyword_mentioned'', JStr (str ''rust''))]"

definition foo_bar :: message where
  "foo_bar = [(str ''foo'', JStr (str ''bar''))]"

text \<open>
  The string \<open>"5"\<close> and the number \<open>5\<close> as keywords, and a keyword that is one
  lone surrogate, the JSON text \<open>"\ud800"\<close>.
\<close>

definition five_str_event :: message where
  "five_str_event = [(str ''keyword_mentioned'', JStr (str ''5''))]"

definition five_int_event :: message where
  "five_int_event = [(str ''keyword_mentioned'', JInt 5)]"

definition surrogate_event :: message where
  "surrogate_event = [(str ''keyword_mentioned'', JStr [0xD800])]"

text \<open>The files that a run ending with \<open>{"python": 5}\<close> left behind.\<close>

definition prior_run :: files where
  "prior_run =
     \<lparr>sqlite_file = Some (Keyword_counts [str ''python'' \<mapsto> 5] 0),
      json_file = Some (Document [str ''python'' \<mapsto> 5])\<rparr>"

text \<open>
  Two damaged states of the files: the database file was removed after one event was
  counted, and the JSON file was left empty.
\<close>

definition database_removed :: files where
  "database_removed =
     \<lparr>sqlite_file = None, json_file = Some (Document [str ''python'' \<mapsto> 1])\<rparr>"

definition snapshot_cut :: files where
  "snapshot_cut =
     \<lparr>sqlite_file = Some (Keyword_counts [str ''python'' \<mapsto> 1] 0),
      json_file = Some Truncated\<rparr>"

section \<open>Properties\<close>

subsection \<open>Strings\<close>

lemma str_eq_iff [simp]: "str a = str b \<longleftrightarrow> a = b"
proof -
  have "inj (of_char :: char \<Rightarrow> nat)" by (rule injI) simp
  then show ?thesis by (simp add: str_def)
qed

lemma str_Nil [simp]: "str [] = []" "str s = [] \<longleftrightarrow> s = []" "[] = str s \<longleftrightarrow> s = []"
  by (auto simp: str_def)

lemma utf8_encodable_str [simp]: "utf8_encodable (str s)"
proof -
  have "\<not> is_surrogate (of_char c)" for c :: char
  proof -
    have "(of_char c :: nat) < 256" by simp
    then have "(of_char c :: nat) < 0xD800" by linarith
    then show ?thesis unfolding is_surrogate_def by linarith
  qed
  then show ?thesis by (simp add: utf8_encodable_def str_def list_all_iff)
qed

lemma surrogate_not_encodable: "\<not> utf8_encodable [0xD800]"
  by (simp add: utf8_encodable_def is_surrogate_def)

lemma digits_small: "n < 10 \<Longrightarrow> digits n = [48 + n]"
  by (simp add: digits.simps)

lemma int_text_5: "int_text 5 = str ''5''"
  by (simp add: int_text_def digits_small str_def)

subsection \<open>One update of each store\<close>

lemma startup_eq:
  "startup fs = \<lparr>sqlite_file = Some (Keyword_counts Map.empty 0), json_file = None\<rparr>"
  by (cases fs) (simp add: startup_def init_db_def connect_def Let_def)

lemma update_keyword_count_str:
  assumes "sqlite_file fs = Some (Keyword_counts rows nulls)"
  shows "update_keyword_count fs (JStr k) =
     (if utf8_encodable k
      then Inr (fs\<lparr>sqlite_file := Some (Keyword_counts (rows(k \<mapsto> count_of rows k + 1)) nulls)\<rparr>)
      else Inl UnicodeEncodeError)"
  using assms
  by (simp add: update_keyword_count_def connect_def bind_keyword_def count_of_def
      split: option.splits)

lemma update_json_file_str:
  assumes "load_counts fs = Inr c"
  shows "update_json_file fs (JStr k) =
     Inr (fs\<lparr>json_file := Some (Document (c(k \<mapsto> count_of c k + 1)))\<rparr>)"
  using assms
  by (simp add: update_json_file_def new_counts_def json_dump_def open_w_def count_of_def)

lemma update_json_file_steps_str:
  assumes "load_counts fs = Inr c"
  shows "update_json_file_steps fs (JStr k) =
     [fs\<lparr>json_file := Some Truncated\<rparr>,
      fs\<lparr>json_file := Some (Document (c(k \<mapsto> count_of c k + 1)))\<rparr>]"
  using assms
  by (simp add: update_json_file_steps_def new_counts_def json_dump_def open_w_def count_of_def)

lemma load_counts_sqlite_update [simp]:
  "load_counts (fs\<lparr>sqlite_file := d\<rparr>) = load_counts fs"
  by (simp add: load_counts_def)

subsection \<open>Valid events\<close>

lemma valid_eventE:
  assumes "valid_event m"
  obtains "dict_get m (str ''keyword_mentioned'') = JStr (keyword_of m)" "keyword_of m \<noteq> []"
  using assms
  by (cases "dict_get m (str ''keyword_mentioned'')") (auto simp: valid_event_def keyword_of_def)

lemma process_valid:
  assumes "valid_event m" "utf8_encodable (keyword_of m)"
    "sqlite_file fs = Some (Keyword_counts rows nulls)" "load_counts fs = Inr c"
  shows "process_message m fs =
     Inr (fs\<lparr>sqlite_file :=
               Some (Keyword_counts
                 (rows(keyword_of m \<mapsto> count_of rows (keyword_of m) + 1)) nulls),
             json_file :=
               Some (Document (c(keyword_of m \<mapsto> count_of c (keyword_of m) + 1)))\<rparr>)"
proof -
  let ?k = "keyword_of m"
  let ?fs1 = "fs\<lparr>sqlite_file := Some (Keyword_counts (rows(?k \<mapsto> count_of rows ?k + 1)) nulls)\<rparr>"
  from assms(1) have k: "dict_get m (str ''keyword_mentioned'') = JStr ?k" "?k \<noteq> []"
    by (auto elim: valid_eventE)
  have u: "update_keyword_count fs (JStr ?k) = Inr ?fs1"
    using assms(2) by (simp add: update_keyword_count_str [OF assms(3)])
  have l: "load_counts ?fs1 = Inr c" using assms(4) by simp
  show ?thesis
    using k by (simp add: process_message_def u update_json_file_str [OF l])
qed

lemma process_points_valid:
  assumes "valid_event m" "utf8_encodable (keyword_of m)"
    "sqlite_file fs = Some (Keyword_counts rows nulls)" "load_counts fs = Inr c"
  shows "process_points m fs =
     [fs\<lparr>sqlite_file :=
            Some (Keyword_counts
              (rows(keyword_of m \<mapsto> count_of rows (keyword_of m) + 1)) nulls)\<rparr>,
      fs\<lparr>sqlite_file :=
            Some (Keyword_counts
              (rows(keyword_of m \<mapsto> count_of rows (keyword_of m) + 1)) nulls),
          json_file := Some Truncated\<rparr>,
      fs\<lparr>sqlite_file :=
            Some (Keyword_counts
              (rows(keyword_of m \<mapsto> count_of rows (keyword_of m) + 1)) nulls),
          json_file :=
            Some (Document (c(keyword_of m \<mapsto> count_of c (keyword_of m) + 1)))\<rparr>]"
proof -
  let ?k = "keyword_of m"
  let ?fs1 = "fs\<lparr>sqlite_file := Some (Keyword_counts (rows(?k \<mapsto> count_of rows ?k + 1)) nulls)\<rparr>"
  from assms(1) have k: "dict_get m (str ''keyword_mentioned'') = JStr ?k" "?k \<noteq> []"
    by (auto elim: valid_eventE)
  have u: "update_keyword_count fs (JStr ?k) = Inr ?fs1"
    using assms(2) by (simp add: update_keyword_count_str [OF assms(3)])
  have l: "load_counts ?fs1 = Inr c" using assms(4) by simp
  show ?thesis
    using k by (simp add: process_points_def u update_json_file_steps_str [OF l])
qed

lemma process_surrogate:
  assumes "valid_event m" "\<not> utf8_encodable (keyword_of m)"
    "sqlite_file fs = Some (Keyword_counts rows nulls)"
  shows "process_message m fs = Inl UnicodeEncodeError" "process_points m fs = []"
proof -
  from assms(1) have k: "dict_get m (str ''keyword_mentioned'') = JStr (keyword_of m)"
    "keyword_of m \<noteq> []"
    by (auto elim: valid_eventE)
  show "process_message m fs = Inl UnicodeEncodeError"
    using k assms(2) by (simp add: process_message_def update_keyword_count_str [OF assms(3)])
  show "process_points m fs = []"
    using k assms(2) by (simp add: process_points_def update_keyword_count_str [OF assms(3)])
qed

lemma consume_valid:
  assumes "\<forall>m\<in>set ms. valid_event m \<and> utf8_encodable (keyword_of m)"
    "sqlite_file fs = Some (Keyword_counts rows nulls)"
    "load_counts fs = Inr c"
  shows "\<exists>fs'. consume_messages ms fs = Inr fs' \<and>
            sqlite_file fs' = Some (Keyword_counts (add_all rows (map keyword_of ms)) nulls) \<and>
            load_counts fs' = Inr (add_all c (map keyword_of ms))"
  using assms
proof (induction ms arbitrary: fs rows c)
  case Nil
  then show ?case by simp
next
  case (Cons m ms)
  have v: "valid_event m" "utf8_encodable (keyword_of m)" using Cons.prems(1) by simp_all
  let ?rows1 = "rows(keyword_of m \<mapsto> count_of rows (keyword_of m) + 1)"
  let ?c1 = "c(keyword_of m \<mapsto> count_of c (keyword_of m) + 1)"
  let ?fs1 = "fs\<lparr>sqlite_file := Some (Keyword_counts ?rows1 nulls),
                 json_file := Some (Document ?c1)\<rparr>"
  have p: "process_message m fs = Inr ?fs1"
    by (rule process_valid [OF v Cons.prems(2) Cons.prems(3)])
  have a: "\<forall>m\<in>set ms. valid_event m \<and> utf8_encodable (keyword_of m)"
    using Cons.prems(1) by simp
  have b: "sqlite_file ?fs1 = Some (Keyword_counts ?rows1 nulls)" by simp
  have d: "load_counts ?fs1 = Inr ?c1" by (simp add: load_counts_def)
  from Cons.IH [OF a b d] obtain fs' where
    "consume_messages ms ?fs1 = Inr fs'"
    "sqlite_file fs' = Some (Keyword_counts (add_all ?rows1 (map keyword_of ms)) nulls)"
    "load_counts fs' = Inr (add_all ?c1 (map keyword_of ms))"
    by blast
  then show ?case using p by simp
qed

lemma count_of_add_all: "count_of (add_all c ks) k = count_of c k + int (count_list ks k)"
  by (induction ks arbitrary: c) (auto simp: count_of_def)

lemma dom_add_all: "dom (add_all c ks) = dom c \<union> set ks"
  by (induction ks arbitrary: c) auto

lemma add_all_empty: "add_all Map.empty ks = occurrences ks"
proof (rule ext)
  fix k
  show "add_all Map.empty ks k = occurrences ks k"
  proof (cases "k \<in> set ks")
    case True
    then have "k \<in> dom (add_all Map.empty ks)" by (simp add: dom_add_all)
    then obtain n where n: "add_all Map.empty ks k = Some n" by auto
    have "count_of (add_all Map.empty ks) k = count_of Map.empty k + int (count_list ks k)"
      by (rule count_of_add_all)
    then have "count_of (add_all Map.empty ks) k = int (count_list ks k)"
      by (simp add: count_of_def)
    with n True show ?thesis by (simp add: occurrences_def count_of_def)
  next
    case False
    then have "k \<notin> dom (add_all Map.empty ks)" by (simp add: dom_add_all)
    with False show ?thesis by (auto simp: occurrences_def)
  qed
qed

lemma main_valid:
  assumes "\<forall>m\<in>set records. valid_event m \<and> utf8_encodable (keyword_of m)"
  shows "\<exists>fs'. main records fs = Inr fs' \<and>
            sqlite_file fs' = Some (Keyword_counts (occurrences (map keyword_of records)) 0) \<and>
            load_counts fs' = Inr (occurrences (map keyword_of records))"
proof -
  have "\<exists>fs'. consume_messages records (startup fs) = Inr fs' \<and>
            sqlite_file fs' =
              Some (Keyword_counts (add_all Map.empty (map keyword_of records)) 0) \<and>
            load_counts fs' = Inr (add_all Map.empty (map keyword_of records))"
    by (rule consume_valid [OF assms]) (simp_all add: startup_eq load_counts_def)
  then show ?thesis by (simp add: main_def add_all_empty)
qed

subsection \<open>Dropped messages and the loop\<close>

lemma process_falsy:
  "\<not> truthy (dict_get m (str ''keyword_mentioned'')) \<Longrightarrow> process_message m fs = Inr fs"
  by (simp add: process_message_def)

lemma points_falsy:
  "\<not> truthy (dict_get m (str ''keyword_mentioned'')) \<Longrightarrow> process_points m fs = []"
  by (simp add: process_points_def)

lemma consume_append:
  "consume_messages (xs @ ys) fs =
     (case consume_messages xs fs of Inl e \<Rightarrow> Inl e | Inr fs' \<Rightarrow> consume_messages ys fs')"
  by (induction xs arbitrary: fs) (auto split: sum.splits)

lemma consume_skip:
  "\<not> truthy (dict_get m (str ''keyword_mentioned'')) \<Longrightarrow>
   consume_messages (xs @ m # ys) fs = consume_messages (xs @ ys) fs"
  by (simp add: consume_append process_falsy split: sum.splits)

lemma consume_raises:
  assumes "consume_messages earlier fs = Inr fs1" "process_message m fs1 = Inl e"
  shows "consume_messages (earlier @ m # later) fs = Inl e"
  using assms by (simp add: consume_append)

subsection \<open>The cases of one message\<close>

lemma update_json_file_steps_result:
  "update_json_file fs keyword = Inr fs' \<Longrightarrow>
   update_json_file_steps fs keyword = [open_w fs, fs']"
  by (auto simp: update_json_file_def update_json_file_steps_def split: sum.splits)

lemma update_json_file_steps_raises:
  "update_json_file fs keyword = Inl e \<Longrightarrow> update_json_file_steps fs keyword = []"
  by (auto simp: update_json_file_def update_json_file_steps_def split: sum.splits)

lemma process_cases [case_names dropped db_raises json_raises both]:
  obtains "\<not> truthy (dict_get m (str ''keyword_mentioned''))"
      "process_message m fs = Inr fs" "process_points m fs = []"
  | e where "truthy (dict_get m (str ''keyword_mentioned''))"
      "update_keyword_count fs (dict_get m (str ''keyword_mentioned'')) = Inl e"
      "process_message m fs = Inl e" "process_points m fs = []"
  | fs1 e where "truthy (dict_get m (str ''keyword_mentioned''))"
      "update_keyword_count fs (dict_get m (str ''keyword_mentioned'')) = Inr fs1"
      "update_json_file fs1 (dict_get m (str ''keyword_mentioned'')) = Inl e"
      "process_message m fs = Inl e" "process_points m fs = [fs1]"
  | fs1 fs2 where "truthy (dict_get m (str ''keyword_mentioned''))"
      "update_keyword_count fs (dict_get m (str ''keyword_mentioned'')) = Inr fs1"
      "update_json_file fs1 (dict_get m (str ''keyword_mentioned'')) = Inr fs2"
      "process_message m fs = Inr fs2" "process_points m fs = [fs1, open_w fs1, fs2]"
proof (cases "truthy (dict_get m (str ''keyword_mentioned''))")
  case False
  then show ?thesis using that(1) by (simp add: process_message_def process_points_def)
next
  case True
  let ?kw = "dict_get m (str ''keyword_mentioned'')"
  show ?thesis
  proof (cases "update_keyword_count fs ?kw")
    case (Inl e)
    with True show ?thesis
      using that(2) by (simp add: process_message_def process_points_def)
  next
    case (Inr fs1)
    show ?thesis
    proof (cases "update_json_file fs1 ?kw")
      case (Inl e)
      with Inr True show ?thesis
        using that(3) [of fs1 e]
        by (simp add: process_message_def process_points_def update_json_file_steps_raises)
    next
      case fs2: (Inr fs2)
      with Inr True show ?thesis
        using that(4) [of fs1 fs2]
        by (simp add: process_message_def process_points_def update_json_file_steps_result)
    qed
  qed
qed

lemma process_last:
  assumes "process_message m fs = Inr fs'"
  shows "last (fs # process_points m fs) = fs'"
  using assms by (cases m fs rule: process_cases) auto

lemma consume_last:
  assumes "consume_messages ms fs = Inr fs'"
  shows "last (fs # consume_points ms fs) = fs'"
  using assms
proof (induction ms arbitrary: fs)
  case Nil
  then show ?case by simp
next
  case (Cons m ms)
  from Cons.prems obtain fs1 where p: "process_message m fs = Inr fs1"
    and c: "consume_messages ms fs1 = Inr fs'"
    by (auto split: sum.splits)
  have "last (fs # consume_points (m # ms) fs) =
      last ((fs # process_points m fs) @ consume_points ms fs1)"
    using p by simp
  also have "\<dots> = last (fs1 # consume_points ms fs1)"
    using process_last [OF p] by (cases "consume_points ms fs1") auto
  also have "\<dots> = fs'" by (rule Cons.IH [OF c])
  finally show ?case .
qed

subsection \<open>The stores agree when a run over valid events ends\<close>

lemma consume_valid_last:
  assumes "\<forall>m\<in>set ms. valid_event m"
    "sqlite_file fs = Some (Keyword_counts c nulls)" "load_counts fs = Inr c"
    "c \<noteq> Map.empty \<longrightarrow> json_file fs = Some (Document c)"
  shows "\<exists>c'. sqlite_file (last (fs # consume_points ms fs)) = Some (Keyword_counts c' nulls) \<and>
           load_counts (last (fs # consume_points ms fs)) = Inr c' \<and>
           (c' \<noteq> Map.empty \<longrightarrow>
              json_file (last (fs # consume_points ms fs)) = Some (Document c'))"
  using assms
proof (induction ms arbitrary: fs c)
  case Nil
  then show ?case by simp
next
  case (Cons m ms)
  have v: "valid_event m" using Cons.prems(1) by simp
  have rest: "\<forall>m\<in>set ms. valid_event m" using Cons.prems(1) by simp
  show ?case
  proof (cases "utf8_encodable (keyword_of m)")
    case True
    let ?c1 = "c(keyword_of m \<mapsto> count_of c (keyword_of m) + 1)"
    let ?fs2 = "fs\<lparr>sqlite_file := Some (Keyword_counts ?c1 nulls),
                   json_file := Some (Document ?c1)\<rparr>"
    have pm: "process_message m fs = Inr ?fs2"
      by (rule process_valid [OF v True Cons.prems(2) Cons.prems(3)])
    have "last (fs # consume_points (m # ms) fs) =
        last ((fs # process_points m fs) @ consume_points ms ?fs2)"
      using pm by simp
    also have "\<dots> = last (?fs2 # consume_points ms ?fs2)"
      using process_last [OF pm] by (cases "consume_points ms ?fs2") auto
    finally have l: "last (fs # consume_points (m # ms) fs) =
        last (?fs2 # consume_points ms ?fs2)" .
    have a: "sqlite_file ?fs2 = Some (Keyword_counts ?c1 nulls)" by simp
    have b: "load_counts ?fs2 = Inr ?c1" by (simp add: load_counts_def)
    have d: "?c1 \<noteq> Map.empty \<longrightarrow> json_file ?fs2 = Some (Document ?c1)" by simp
    from Cons.IH [OF rest a b d] show ?thesis unfolding l .
  next
    case False
    from process_surrogate [OF v False Cons.prems(2)]
    have "consume_points (m # ms) fs = []" by simp
    with Cons.prems show ?thesis by auto
  qed
qed

subsection \<open>No count of the database decreases\<close>

lemma db_le_refl: "db_le fs fs"
  by (simp add: db_le_def)

lemma db_le_trans: "db_le a b \<Longrightarrow> db_le b c \<Longrightarrow> db_le a c"
  unfolding db_le_def by (meson order_trans)

lemma db_le_same: "sqlite_file a = sqlite_file b \<Longrightarrow> db_le a b"
  by (simp add: db_le_def db_count_def db_counts_def db_keys_def db_nulls_def)

lemma update_keyword_count_db_le:
  assumes "update_keyword_count fs keyword = Inr fs1"
  shows "db_le fs fs1"
proof -
  from assms obtain rows nulls where r: "connect fs = Keyword_counts rows nulls"
    by (auto simp: update_keyword_count_def split: database.splits)
  then have s: "sqlite_file fs = Some (Keyword_counts rows nulls)"
    by (auto simp: connect_def split: option.splits)
  from assms r obtain b where b: "bind_keyword keyword = Inr b"
    by (auto simp: update_keyword_count_def split: sum.splits)
  show ?thesis
  proof (cases b)
    case None
    with assms r b have "fs1 = fs\<lparr>sqlite_file := Some (Keyword_counts rows (nulls + 1))\<rparr>"
      by (simp add: update_keyword_count_def)
    with s show ?thesis
      by (simp add: db_le_def db_count_def db_counts_def db_keys_def db_nulls_def)
  next
    case (Some k)
    with assms r b have "fs1 = fs\<lparr>sqlite_file := Some (Keyword_counts
        (rows(k \<mapsto> (case rows k of None \<Rightarrow> 1 | Some c \<Rightarrow> c + 1))) nulls)\<rparr>"
      by (simp add: update_keyword_count_def)
    with s show ?thesis
      by (auto simp: db_le_def db_count_def db_counts_def count_of_def db_keys_def
          db_nulls_def split: option.splits)
  qed
qed

lemma update_keyword_count_json:
  "update_keyword_count fs keyword = Inr fs1 \<Longrightarrow> json_file fs1 = json_file fs"
  by (auto simp: update_keyword_count_def split: database.splits sum.splits option.splits)

lemma update_json_file_sqlite:
  "update_json_file fs keyword = Inr fs2 \<Longrightarrow> sqlite_file fs2 = sqlite_file fs"
  by (auto simp: update_json_file_def json_dump_def open_w_def split: sum.splits)

lemma open_w_sqlite [simp]: "sqlite_file (open_w fs) = sqlite_file fs"
  by (simp add: open_w_def)

lemma process_points_db_le:
  assumes "p \<in> set (process_points m fs)"
  shows "db_le fs p"
  using assms
proof (cases m fs rule: process_cases)
  case (json_raises fs1 e)
  with assms show ?thesis by (auto dest: update_keyword_count_db_le)
next
  case (both fs1 fs2)
  have a: "db_le fs fs1" using both(2) by (rule update_keyword_count_db_le)
  have "db_le fs1 (open_w fs1)" by (rule db_le_same) simp
  moreover have "db_le fs1 fs2"
    using update_json_file_sqlite [OF both(3)] by (simp add: db_le_same)
  ultimately show ?thesis using assms both(5) a by (auto intro: db_le_trans)
qed auto

lemma process_points_db_sorted: "sorted_wrt db_le (process_points m fs)"
proof (cases m fs rule: process_cases)
  case (both fs1 fs2)
  have s: "sqlite_file fs2 = sqlite_file fs1" by (rule update_json_file_sqlite [OF both(3)])
  have "db_le fs1 (open_w fs1)" "db_le fs1 fs2" "db_le (open_w fs1) fs2"
    using s by (simp_all add: db_le_same)
  with both(5) show ?thesis by simp
qed auto

lemma process_points_db_le_result:
  assumes "process_message m fs = Inr fs'" "p \<in> set (process_points m fs)"
  shows "db_le p fs'"
  using assms
proof (cases m fs rule: process_cases)
  case (both fs1 fs2)
  have s: "sqlite_file fs2 = sqlite_file fs1" by (rule update_json_file_sqlite [OF both(3)])
  have "db_le fs1 fs2" "db_le (open_w fs1) fs2" "db_le fs2 fs2"
    using s by (simp_all add: db_le_same)
  with assms both(4,5) show ?thesis by auto
qed auto

lemma process_message_db_le:
  assumes "process_message m fs = Inr fs'"
  shows "db_le fs fs'"
proof (cases "process_points m fs")
  case Nil
  with process_last [OF assms] show ?thesis by (simp add: db_le_refl)
next
  case (Cons p ps)
  then have "last (process_points m fs) \<in> set (process_points m fs)" by simp
  moreover have "last (process_points m fs) = fs'"
    using process_last [OF assms] Cons by simp
  ultimately show ?thesis using process_points_db_le by blast
qed

lemma consume_points_db_sorted: "sorted_wrt db_le (fs # consume_points records fs)"
proof (induction records arbitrary: fs)
  case Nil
  show ?case by simp
next
  case (Cons m ms)
  show ?case
  proof (cases "process_message m fs")
    case (Inl e)
    then show ?thesis
      by (auto simp: process_points_db_sorted dest: process_points_db_le)
  next
    case (Inr fs')
    from Cons.IH [of fs'] have later: "\<forall>y\<in>set (consume_points ms fs'). db_le fs' y"
      and sorted: "sorted_wrt db_le (consume_points ms fs')" by simp_all
    have "\<forall>p\<in>set (process_points m fs). \<forall>y\<in>set (consume_points ms fs'). db_le p y"
      using later process_points_db_le_result [OF Inr] db_le_trans by blast
    moreover have "\<forall>y\<in>set (consume_points ms fs'). db_le fs y"
      using later process_message_db_le [OF Inr] db_le_trans by blast
    ultimately show ?thesis
      using Inr sorted by (auto simp: sorted_wrt_append process_points_db_sorted
          dest: process_points_db_le)
  qed
qed

subsection \<open>No count of the JSON file decreases between two documents, for string keywords\<close>

lemma json_le_refl: "json_le fs fs"
  by (simp add: json_le_def)

lemma json_le_trans: "json_le a b \<Longrightarrow> json_le b c \<Longrightarrow> json_le a c"
  unfolding json_le_def by (meson order_trans)

lemma json_le_same: "json_file a = json_file b \<Longrightarrow> json_le a b"
  by (simp add: json_le_def json_count_def json_keys_def load_counts_def)

lemma update_json_file_str_le:
  assumes "update_json_file fs (JStr k) = Inr fs2"
  shows "json_le fs fs2" "snapshot_readable fs" "snapshot_readable fs2"
proof -
  from assms obtain c where l: "load_counts fs = Inr c"
    by (auto simp: update_json_file_def split: sum.splits)
  from assms update_json_file_str [OF l, of k]
  have fs2: "fs2 = fs\<lparr>json_file := Some (Document (c(k \<mapsto> count_of c k + 1)))\<rparr>" by simp
  show "json_le fs fs2"
    using l by (auto simp: fs2 json_le_def json_count_def json_keys_def load_counts_def
        count_of_def split: option.splits)
  show "snapshot_readable fs"
    using l by (auto simp: snapshot_readable_def load_counts_def)
  show "snapshot_readable fs2" by (simp add: fs2 snapshot_readable_def)
qed

lemma str_keyword_cases:
  assumes "str_keyword m"
  obtains "\<not> truthy (dict_get m (str ''keyword_mentioned''))" | "valid_event m"
  using assms
  by (cases "dict_get m (str ''keyword_mentioned'')") (auto simp: str_keyword_def valid_event_def)

lemma str_keyword_JStr:
  assumes "str_keyword m" "truthy (dict_get m (str ''keyword_mentioned''))"
  shows "dict_get m (str ''keyword_mentioned'') = JStr (keyword_of m)"
  using assms
  by (cases "dict_get m (str ''keyword_mentioned'')") (auto simp: str_keyword_def keyword_of_def)

lemma snapshot_readable_open_w [simp]: "\<not> snapshot_readable (open_w fs)"
  by (simp add: snapshot_readable_def open_w_def)

lemma consume_points_json_sorted:
  assumes "\<forall>m\<in>set records. str_keyword m"
  shows "sorted_wrt json_le (filter snapshot_readable (fs # consume_points records fs))"
  using assms
proof (induction records arbitrary: fs)
  case Nil
  show ?case by simp
next
  case (Cons m ms)
  have sk: "str_keyword m" and rest: "\<forall>m\<in>set ms. str_keyword m"
    using Cons.prems by simp_all
  show ?case
  proof (cases m fs rule: process_cases)
    case dropped
    with Cons.IH [OF rest, of fs] show ?thesis by simp
  next
    case (db_raises e)
    then show ?thesis by simp
  next
    case (json_raises fs1 e)
    have "json_le fs fs1"
      using update_keyword_count_json [OF json_raises(2)] by (simp add: json_le_same)
    with json_raises(4,5) show ?thesis by simp
  next
    case (both fs1 fs2)
    let ?rest = "filter snapshot_readable (consume_points ms fs2)"
    have kw: "dict_get m (str ''keyword_mentioned'') = JStr (keyword_of m)"
      by (rule str_keyword_JStr [OF sk both(1)])
    have u: "update_json_file fs1 (JStr (keyword_of m)) = Inr fs2" using both(3) kw by simp
    have h1: "snapshot_readable fs1" and h2: "snapshot_readable fs2" and l12: "json_le fs1 fs2"
      using update_json_file_str_le [OF u] by simp_all
    have l01: "json_le fs fs1"
      using update_keyword_count_json [OF both(2)] by (simp add: json_le_same)
    from Cons.IH [OF rest, of fs2] h2
    have s2: "sorted_wrt json_le (fs2 # ?rest)" by simp
    then have a2: "\<forall>y\<in>set ?rest. json_le fs2 y" and sr: "sorted_wrt json_le ?rest"
      by simp_all
    have a1: "\<forall>y\<in>set ?rest. json_le fs1 y" using a2 l12 json_le_trans by blast
    have a0: "\<forall>y\<in>set ?rest. json_le fs y" using a1 l01 json_le_trans by blast
    have l02: "json_le fs fs2" using l01 l12 by (rule json_le_trans)
    have "filter snapshot_readable (fs # consume_points (m # ms) fs) =
        filter snapshot_readable [fs] @ fs1 # fs2 # ?rest"
      using both(4,5) h1 h2 by simp
    then show ?thesis
      using sr a0 a1 a2 l01 l02 l12 by (simp add: sorted_wrt_append)
  qed
qed

lemma sorted_wrt_filter_nth:
  assumes "sorted_wrt R (filter P xs)" "i < j" "j < length xs" "P (xs ! i)" "P (xs ! j)"
  shows "R (xs ! i) (xs ! j)"
  using assms
proof (induction xs arbitrary: i j)
  case Nil
  then show ?case by simp
next
  case (Cons x xs)
  from Cons.prems(2) obtain j' where j: "j = Suc j'" by (cases j) auto
  show ?case
  proof (cases i)
    case 0
    with Cons.prems j have "P x" "P (xs ! j')" "j' < length xs" by simp_all
    then have "xs ! j' \<in> set (filter P xs)" by simp
    with Cons.prems(1) \<open>P x\<close> have "R x (xs ! j')" by simp
    with 0 j show ?thesis by simp
  next
    case (Suc i')
    have "sorted_wrt R (filter P xs)" using Cons.prems(1) by (cases "P x") simp_all
    from Cons.IH [OF this, of i' j'] Cons.prems Suc j show ?thesis by simp
  qed
qed

subsection \<open>The database is one update ahead at most, for string keywords\<close>

lemma consume_points_in_step:
  assumes "\<forall>m\<in>set ms. str_keyword m"
    "sqlite_file fs = Some (Keyword_counts c nulls)" "load_counts fs = Inr c"
    "p \<in> set (consume_points ms fs)"
  shows "\<exists>rows. db_counts p = Some rows \<and>
           (json_file p = Some Truncated \<or>
            (\<exists>c'. load_counts p = Inr c' \<and>
               (rows = c' \<or> (\<exists>k. k \<noteq> [] \<and> rows = c'(k \<mapsto> count_of c' k + 1)))))"
  using assms
proof (induction ms arbitrary: fs c)
  case Nil
  then show ?case by simp
next
  case (Cons m ms)
  have sk: "str_keyword m" and rest: "\<forall>m\<in>set ms. str_keyword m"
    using Cons.prems(1) by simp_all
  from sk show ?case
  proof (cases rule: str_keyword_cases)
    case 1
    then have "process_message m fs = Inr fs" "process_points m fs = []"
      by (simp_all add: process_falsy points_falsy)
    with Cons.prems(4) have "p \<in> set (consume_points ms fs)" by simp
    from Cons.IH [OF rest Cons.prems(2) Cons.prems(3) this] show ?thesis .
  next
    case 2
    show ?thesis
    proof (cases "utf8_encodable (keyword_of m)")
      case False
      from process_surrogate [OF 2 False Cons.prems(2)] Cons.prems(4) show ?thesis by simp
    next
      case True
      let ?c1 = "c(keyword_of m \<mapsto> count_of c (keyword_of m) + 1)"
      let ?fs1 = "fs\<lparr>sqlite_file := Some (Keyword_counts ?c1 nulls)\<rparr>"
      let ?tr = "fs\<lparr>sqlite_file := Some (Keyword_counts ?c1 nulls),
                     json_file := Some Truncated\<rparr>"
      let ?fs2 = "fs\<lparr>sqlite_file := Some (Keyword_counts ?c1 nulls),
                     json_file := Some (Document ?c1)\<rparr>"
      have pm: "process_message m fs = Inr ?fs2"
        by (rule process_valid [OF 2 True Cons.prems(2) Cons.prems(3)])
      have pp: "process_points m fs = [?fs1, ?tr, ?fs2]"
        by (rule process_points_valid [OF 2 True Cons.prems(2) Cons.prems(3)])
      from 2 have ne: "keyword_of m \<noteq> []" by (auto elim: valid_eventE)
      from Cons.prems(4) pm pp
      consider "p = ?fs1" | "p = ?tr" | "p = ?fs2" | "p \<in> set (consume_points ms ?fs2)"
        by auto
      then show ?thesis
      proof cases
        case 1
        have "db_counts ?fs1 = Some ?c1" "load_counts ?fs1 = Inr c"
          using Cons.prems(3) by (simp_all add: db_counts_def)
        with 1 ne show ?thesis by blast
      next
        case 2
        then show ?thesis by (simp add: db_counts_def)
      next
        case 3
        have "db_counts ?fs2 = Some ?c1" "load_counts ?fs2 = Inr ?c1"
          by (simp_all add: db_counts_def load_counts_def)
        with 3 show ?thesis by blast
      next
        case 4
        have a: "sqlite_file ?fs2 = Some (Keyword_counts ?c1 nulls)" by simp
        have b: "load_counts ?fs2 = Inr ?c1" by (simp add: load_counts_def)
        from Cons.IH [OF rest a b 4] show ?thesis .
      qed
    qed
  qed
qed

subsection \<open>The startup of \<open>main\<close>\<close>

text \<open>
  \<open>init_db\<close> alone keeps the rows of an earlier run: it is the two \<open>unlink\<close> calls
  of \<open>main\<close> that empty the stores.
\<close>

lemma init_db_keeps_rows: "init_db prior_run = prior_run"
  by (simp add: init_db_def connect_def prior_run_def)

section \<open>The claims\<close>

text \<open>
  C1 as stated does not hold. A keyword that is one lone surrogate is a non-empty
  string, so the event is valid, and \<open>cur.execute\<close> raises \<open>UnicodeEncodeError\<close>
  for it: the run ends there and counts neither this event nor a later one.
\<close>

theorem counter_store_raises_counterexample:
  "valid_event surrogate_event \<and>
   main [surrogate_event] prior_run = Inl UnicodeEncodeError \<and>
   main [python_event, surrogate_event, python_event] prior_run = Inl UnicodeEncodeError"
  by (simp add: main_def startup_eq process_message_def surrogate_event_def python_event_def
      valid_event_def dict_get_def update_keyword_count_def connect_def bind_keyword_def
      update_json_file_def load_counts_def new_counts_def open_w_def json_dump_def
      utf8_encodable_def is_surrogate_def)

text \<open>
  C1, amended. A run of \<open>main\<close> over valid events whose keywords UTF-8 can encode
  returns, whatever the files held before, and the table \<open>keyword_counts\<close> then has
  exactly one row for each keyword of the events, with the number of its occurrences as
  count: 1 after the first event of a keyword and 1 more for each further one.
\<close>

theorem counter_store_counts_occurrences:
  assumes "\<forall>m\<in>set records. valid_event m \<and> utf8_encodable (keyword_of m)"
  shows "\<exists>fs'. main records fs = Inr fs' \<and>
           db_counts fs' = Some (occurrences (map keyword_of records))"
proof -
  from main_valid [OF assms, of fs] obtain fs' where
    "main records fs = Inr fs'"
    "sqlite_file fs' = Some (Keyword_counts (occurrences (map keyword_of records)) 0)"
    by blast
  then show ?thesis by (simp add: db_counts_def)
qed

theorem counter_store_counts_occurrences_witness:
  "valid_event python_event \<and> utf8_encodable (keyword_of python_event) \<and>
   valid_event rust_event \<and> utf8_encodable (keyword_of rust_event) \<and>
   (\<exists>fs'. main [python_event, python_event, rust_event] prior_run = Inr fs' \<and>
      db_counts fs' = Some (occurrences [str ''python'', str ''python'', str ''rust'']) \<and>
      occurrences [str ''python'', str ''python'', str ''rust''] (str ''python'') = Some 2 \<and>
      occurrences [str ''python'', str ''python'', str ''rust''] (str ''rust'') = Some 1)"
  using counter_store_counts_occurrences [of "[python_event, python_event, rust_event]" prior_run]
  by (simp add: valid_event_def keyword_of_def dict_get_def python_event_def rust_event_def
      occurrences_def)

text \<open>
  C2. For every sequence of valid events, in the state in which the run of \<open>main\<close>
  ends, the counts that the program loads from the JSON file are the rows of the table
  \<open>keyword_counts\<close>, and unless they are empty the JSON file holds them as the
  document that \<open>update_json_file\<close> wrote by its own read, increment and rewrite.
  When UTF-8 can encode every keyword, the run returns that state and the counts are the
  occurrences of the keywords. Otherwise the run ends with \<open>UnicodeEncodeError\<close>
  at the first keyword that cannot be encoded, before that event changes either store.
\<close>

theorem snapshot_equals_counter_store:
  assumes "\<forall>m\<in>set records. valid_event m"
  shows "\<exists>c. db_counts (last (main_points records fs)) = Some c \<and>
           load_counts (last (main_points records fs)) = Inr c \<and>
           (c \<noteq> Map.empty \<longrightarrow> json_file (last (main_points records fs)) = Some (Document c)) \<and>
           ((\<forall>m\<in>set records. utf8_encodable (keyword_of m)) \<longrightarrow>
              main records fs = Inr (last (main_points records fs)) \<and>
              c = occurrences (map keyword_of records))"
proof -
  let ?end = "last (main_points records fs)"
  have e: "?end = last (startup fs # consume_points records (startup fs))"
    by (simp add: main_points_def)
  have "\<exists>c'. sqlite_file ?end = Some (Keyword_counts c' 0) \<and> load_counts ?end = Inr c' \<and>
           (c' \<noteq> Map.empty \<longrightarrow> json_file ?end = Some (Document c'))"
    unfolding e
    by (rule consume_valid_last [OF assms]) (simp_all add: startup_eq load_counts_def)
  then obtain c where c: "sqlite_file ?end = Some (Keyword_counts c 0)"
    "load_counts ?end = Inr c" "c \<noteq> Map.empty \<longrightarrow> json_file ?end = Some (Document c)"
    by blast
  have "main records fs = Inr ?end \<and> c = occurrences (map keyword_of records)"
    if enc: "\<forall>m\<in>set records. utf8_encodable (keyword_of m)"
  proof -
    from assms enc have "\<forall>m\<in>set records. valid_event m \<and> utf8_encodable (keyword_of m)"
      by simp
    from main_valid [OF this, of fs] obtain fs' where
      m: "main records fs = Inr fs'"
      and s: "sqlite_file fs' = Some (Keyword_counts (occurrences (map keyword_of records)) 0)"
      by blast
    from m have "?end = fs'" unfolding e main_def by (rule consume_last)
    with m s c(1) show ?thesis by simp
  qed
  with c show ?thesis by (auto simp: db_counts_def)
qed

theorem snapshot_equals_counter_store_witness:
  "valid_event python_event \<and> valid_event rust_event \<and>
   utf8_encodable (keyword_of python_event) \<and> utf8_encodable (keyword_of rust_event) \<and>
   main [python_event, python_event, rust_event] prior_run =
     Inr (last (main_points [python_event, python_event, rust_event] prior_run)) \<and>
   db_counts (last (main_points [python_event, python_event, rust_event] prior_run)) =
     Some (occurrences [str ''python'', str ''python'', str ''rust'']) \<and>
   json_file (last (main_points [python_event, python_event, rust_event] prior_run)) =
     Some (Document (occurrences [str ''python'', str ''python'', str ''rust'']))"
proof -
  have v: "\<forall>m\<in>set [python_event, python_event, rust_event]. valid_event m"
    by (simp add: valid_event_def dict_get_def python_event_def rust_event_def)
  have k: "keyword_of python_event = str ''python''" "keyword_of rust_event = str ''rust''"
    by (simp_all add: keyword_of_def dict_get_def python_event_def rust_event_def)
  have n: "occurrences [str ''python'', str ''python'', str ''rust''] \<noteq> Map.empty"
    by (auto simp: occurrences_def fun_eq_iff)
  from snapshot_equals_counter_store [OF v, of prior_run] v k n show ?thesis
    by auto
qed

text \<open>
  C3 as stated does not hold: nothing in \<open>process_message\<close> or in the loop of
  \<open>consume_messages\<close> catches an exception. With the database file removed, the
  database update of the first message raises \<open>OperationalError\<close>; with an empty
  JSON file, \<open>json.load\<close> raises \<open>JSONDecodeError\<close>. Either exception leaves
  \<open>consume_messages\<close> with a second record still unprocessed.
\<close>

theorem store_exception_escapes_counterexample:
  "process_message python_event database_removed = Inl OperationalError \<and>
   consume_messages [python_event, rust_event] database_removed = Inl OperationalError \<and>
   process_message python_event snapshot_cut = Inl JSONDecodeError \<and>
   consume_messages [python_event, rust_event] snapshot_cut = Inl JSONDecodeError"
  by (simp add: process_message_def python_event_def rust_event_def dict_get_def
      update_keyword_count_def connect_def bind_keyword_def update_json_file_def
      load_counts_def database_removed_def snapshot_cut_def)

text \<open>
  C3, amended. A message whose \<open>keyword_mentioned\<close> is missing or not truthy is
  dropped, and the loop goes on as if the message had not been delivered. An exception
  that the database update or the JSON update raises for a message with a truthy keyword
  is not contained: it leaves \<open>consume_messages\<close>, and no later record is processed.
\<close>

theorem store_exception_ends_loop:
  "(\<not> truthy (dict_get m (str ''keyword_mentioned'')) \<longrightarrow>
      consume_messages (earlier @ m # later) fs = consume_messages (earlier @ later) fs) \<and>
   (truthy (dict_get m (str ''keyword_mentioned'')) \<and>
    consume_messages earlier fs = Inr fs1 \<and>
    (update_keyword_count fs1 (dict_get m (str ''keyword_mentioned'')) = Inl e \<or>
     (\<exists>fs2. update_keyword_count fs1 (dict_get m (str ''keyword_mentioned'')) = Inr fs2 \<and>
            update_json_file fs2 (dict_get m (str ''keyword_mentioned'')) = Inl e)) \<longrightarrow>
      consume_messages (earlier @ m # later) fs = Inl e)"
proof (intro conjI impI)
  assume "\<not> truthy (dict_get m (str ''keyword_mentioned''))"
  then show "consume_messages (earlier @ m # later) fs = consume_messages (earlier @ later) fs"
    by (rule consume_skip)
next
  assume a: "truthy (dict_get m (str ''keyword_mentioned'')) \<and>
    consume_messages earlier fs = Inr fs1 \<and>
    (update_keyword_count fs1 (dict_get m (str ''keyword_mentioned'')) = Inl e \<or>
     (\<exists>fs2. update_keyword_count fs1 (dict_get m (str ''keyword_mentioned'')) = Inr fs2 \<and>
            update_json_file fs2 (dict_get m (str ''keyword_mentioned'')) = Inl e))"
  then have "process_message m fs1 = Inl e"
    by (auto simp: process_message_def)
  with a show "consume_messages (earlier @ m # later) fs = Inl e"
    by (simp add: consume_raises)
qed

theorem store_exception_ends_loop_witness:
  "\<not> truthy (dict_get foo_bar (str ''keyword_mentioned'')) \<and>
   consume_messages ([python_event] @ foo_bar # [rust_event]) prior_run =
     consume_messages ([python_event] @ [rust_event]) prior_run \<and>
   truthy (dict_get python_event (str ''keyword_mentioned'')) \<and>
   consume_messages [] database_removed = Inr database_removed \<and>
   update_keyword_count database_removed (dict_get python_event (str ''keyword_mentioned'')) =
     Inl OperationalError \<and>
   consume_messages ([] @ python_event # [rust_event, rust_event]) database_removed =
     Inl OperationalError"
  using store_exception_ends_loop [of foo_bar "[python_event]" "[rust_event]" prior_run]
    store_exception_ends_loop [of python_event "[]" _ database_removed database_removed
      OperationalError]
  by (simp add: foo_bar_def python_event_def dict_get_def
      update_keyword_count_def connect_def database_removed_def)

text \<open>
  C4. A message without the field \<open>keyword_mentioned\<close>, or with the empty string
  in it, changes neither file, and the records before and after it are processed as if it
  had not been delivered.
\<close>

theorem missing_keyword_changes_nothing:
  assumes "map_of m (str ''keyword_mentioned'') = None \<or>
           map_of m (str ''keyword_mentioned'') = Some (JStr [])"
  shows "process_message m fs = Inr fs \<and>
         consume_messages (earlier @ m # later) fs = consume_messages (earlier @ later) fs"
proof -
  have "\<not> truthy (dict_get m (str ''keyword_mentioned''))"
    using assms by (auto simp: dict_get_def)
  then show ?thesis by (simp add: process_falsy consume_skip)
qed

theorem missing_keyword_changes_nothing_witness:
  "(map_of foo_bar (str ''keyword_mentioned'') = None \<or>
    map_of foo_bar (str ''keyword_mentioned'') = Some (JStr [])) \<and>
   process_message foo_bar prior_run = Inr prior_run \<and>
   consume_messages ([python_event] @ foo_bar # [rust_event]) prior_run =
     consume_messages ([python_event] @ [rust_event]) prior_run"
  using missing_keyword_changes_nothing [of foo_bar prior_run "[python_event]" "[rust_event]"]
  by (simp add: foo_bar_def)

text \<open>
  C5. The startup of \<open>main\<close> unlinks both files and creates the database afresh:
  whatever an earlier run left, the table \<open>keyword_counts\<close> is empty, the JSON file is
  absent and read as the empty dict, and this is the state of a run with no event.
\<close>

theorem startup_empties_both_stores:
  "sqlite_file (startup fs) = Some (Keyword_counts Map.empty 0) \<and>
   json_file (startup fs) = None \<and>
   db_counts (startup fs) = Some Map.empty \<and>
   load_counts (startup fs) = Inr Map.empty \<and>
   main [] fs = Inr (startup fs)"
  by (simp add: startup_eq db_counts_def load_counts_def main_def)

theorem startup_empties_both_stores_witness:
  "db_counts prior_run = Some [str ''python'' \<mapsto> 5] \<and>
   db_counts (startup prior_run) = Some Map.empty \<and>
   load_counts (startup prior_run) = Inr Map.empty"
  using startup_empties_both_stores [of prior_run]
  by (simp add: prior_run_def db_counts_def)

text \<open>
  C6 as stated does not hold, for two reasons. A keyword that is the number 5 passes
  \<open>if not keyword\<close>; \<open>counts.get(5, 0)\<close> misses the key \<open>"5"\<close> of the
  loaded dict, and the rewritten document reads 1 under \<open>"5"\<close> where it read 3
  before. And inside every update of the JSON file there is a point, after
  \<open>open(json_path, "w")\<close>, at which the file is empty and records no count at all,
  where it recorded 1 for \<open>python\<close> before.
\<close>

theorem counts_decrease_counterexample:
  "load_counts (main_points [five_str_event, five_str_event, five_str_event, five_int_event]
      prior_run ! 9) = Inr [str ''5'' \<mapsto> 3] \<and>
   load_counts (main_points [five_str_event, five_str_event, five_str_event, five_int_event]
      prior_run ! 12) = Inr [str ''5'' \<mapsto> 1] \<and>
   load_counts (main_points [python_event, python_event] prior_run ! 3) =
     Inr [str ''python'' \<mapsto> 1] \<and>
   json_file (main_points [python_event, python_event] prior_run ! 5) = Some Truncated \<and>
   load_counts (main_points [python_event, python_event] prior_run ! 5) = Inl JSONDecodeError"
  by (simp add: main_points_def startup_eq process_points_def process_message_def
      five_str_event_def five_int_event_def python_event_def dict_get_def
      update_keyword_count_def connect_def bind_keyword_def int_text_5
      update_json_file_def update_json_file_steps_def load_counts_def new_counts_def
      json_key_def open_w_def json_dump_def)

text \<open>
  C6, amended. Between any two points of a run of \<open>main\<close>, the earlier one
  first, whatever the records are: in the database no keyword's count is lower at the
  later point, no row is gone, and there are no fewer rows without a keyword. For
  records whose keywords are strings the same holds of the JSON file between any two
  points at which it is absent or holds a document, that is, outside the rewrite between
  \<open>open(json_path, "w")\<close> and \<open>json.dump\<close>. The points are the startup state
  and every state that the two store updates of a message leave, the emptied JSON file
  included.
\<close>

theorem counts_never_decrease:
  assumes "i \<le> j" "j < length (main_points records fs)"
  shows "db_le (main_points records fs ! i) (main_points records fs ! j) \<and>
         ((\<forall>m\<in>set records. str_keyword m) \<and>
          snapshot_readable (main_points records fs ! i) \<and>
          snapshot_readable (main_points records fs ! j) \<longrightarrow>
            json_le (main_points records fs ! i) (main_points records fs ! j))"
proof (cases "i = j")
  case True
  then show ?thesis by (simp add: db_le_refl json_le_refl)
next
  case False
  with assms(1) have lt: "i < j" by simp
  have "sorted_wrt db_le (main_points records fs)"
    unfolding main_points_def by (rule consume_points_db_sorted)
  then have d: "db_le (main_points records fs ! i) (main_points records fs ! j)"
    using lt assms(2) by (simp add: sorted_wrt_nth_less)
  have "json_le (main_points records fs ! i) (main_points records fs ! j)"
    if "\<forall>m\<in>set records. str_keyword m"
      "snapshot_readable (main_points records fs ! i)"
      "snapshot_readable (main_points records fs ! j)"
  proof -
    have "sorted_wrt json_le (filter snapshot_readable (main_points records fs))"
      unfolding main_points_def by (rule consume_points_json_sorted [OF that(1)])
    then show ?thesis using lt assms(2) that(2,3) by (rule sorted_wrt_filter_nth)
  qed
  with d show ?thesis by blast
qed

theorem counts_never_decrease_witness:
  "(3::nat) \<le> 6 \<and> 6 < length (main_points [python_event, python_event] prior_run) \<and>
   str_keyword python_event \<and>
   snapshot_readable (main_points [python_event, python_event] prior_run ! 3) \<and>
   snapshot_readable (main_points [python_event, python_event] prior_run ! 6) \<and>
   db_le (main_points [python_event, python_event] prior_run ! 3)
     (main_points [python_event, python_event] prior_run ! 6) \<and>
   json_le (main_points [python_event, python_event] prior_run ! 3)
     (main_points [python_event, python_event] prior_run ! 6) \<and>
   json_count (main_points [python_event, python_event] prior_run ! 3) (str ''python'') = 1 \<and>
   json_count (main_points [python_event, python_event] prior_run ! 6) (str ''python'') = 2"
  using counts_never_decrease [of 3 6 "[python_event, python_event]" prior_run]
  by (simp add: main_points_def startup_eq process_points_def process_message_def
      python_event_def dict_get_def update_keyword_count_def connect_def bind_keyword_def
      update_json_file_def update_json_file_steps_def load_counts_def new_counts_def
      open_w_def json_dump_def str_keyword_def snapshot_readable_def json_count_def count_of_def)

text \<open>
  C7 as stated does not hold, for two reasons. After three records with the number 5
  as keyword the run has returned, the table holds 3 for \<open>"5"\<close> and the JSON file
  holds 1: the database is two increments ahead. And at the point after
  \<open>open(json_path, "w")\<close> in the processing of one event, the JSON file is empty and
  cannot be loaded, while the table holds the count.
\<close>

theorem durable_store_lead_counterexample:
  "db_counts (main_points [five_int_event, five_int_event, five_int_event] prior_run ! 9) =
     Some [str ''5'' \<mapsto> 3] \<and>
   load_counts (main_points [five_int_event, five_int_event, five_int_event] prior_run ! 9) =
     Inr [str ''5'' \<mapsto> 1] \<and>
   main [five_int_event, five_int_event, five_int_event] prior_run =
     Inr (main_points [five_int_event, five_int_event, five_int_event] prior_run ! 9) \<and>
   db_counts (main_points [python_event] prior_run ! 2) = Some [str ''python'' \<mapsto> 1] \<and>
   json_file (main_points [python_event] prior_run ! 2) = Some Truncated \<and>
   load_counts (main_points [python_event] prior_run ! 2) = Inl JSONDecodeError"
  by (simp add: main_def main_points_def startup_eq process_points_def process_message_def
      five_int_event_def python_event_def dict_get_def
      update_keyword_count_def connect_def bind_keyword_def int_text_5
      update_json_file_def update_json_file_steps_def load_counts_def new_counts_def
      json_key_def open_w_def json_dump_def db_counts_def)

text \<open>
  C7, amended. In a run of \<open>main\<close> over records whose keywords are strings, the
  database can be read at every point, and at every point either the JSON file is the
  emptied file between \<open>open(json_path, "w")\<close> and \<open>json.dump\<close>, or its
  counts can be loaded and the rows of the database equal them or are these counts with
  one more occurrence of one keyword: the database is updated first, so it is ahead
  by one increment at most, and the JSON file is never ahead. The points are the startup
  state and every state that the two store updates of a message leave.
\<close>

theorem durable_store_leads_by_at_most_one:
  assumes "\<forall>m\<in>set records. str_keyword m" "p \<in> set (main_points records fs)"
  shows "\<exists>rows. db_counts p = Some rows \<and>
           (json_file p = Some Truncated \<or>
            (\<exists>c. load_counts p = Inr c \<and>
               (rows = c \<or> (\<exists>k. k \<noteq> [] \<and> rows = c(k \<mapsto> count_of c k + 1)))))"
proof (cases "p = startup fs")
  case True
  then show ?thesis by (simp add: startup_eq db_counts_def load_counts_def)
next
  case False
  with assms(2) have "p \<in> set (consume_points records (startup fs))"
    by (simp add: main_points_def)
  then show ?thesis
    by (rule consume_points_in_step [OF assms(1), rotated 2])
      (simp_all add: startup_eq load_counts_def)
qed

theorem durable_store_leads_by_at_most_one_witness:
  "str_keyword python_event \<and> str_keyword rust_event \<and>
   \<lparr>sqlite_file = Some (Keyword_counts [str ''python'' \<mapsto> 1] 0), json_file = None\<rparr>
     \<in> set (main_points [python_event, rust_event] prior_run) \<and>
   (\<exists>rows. db_counts \<lparr>sqlite_file = Some (Keyword_counts [str ''python'' \<mapsto> 1] 0),
                      json_file = None\<rparr> = Some rows \<and>
      (\<exists>c. load_counts \<lparr>sqlite_file = Some (Keyword_counts [str ''python'' \<mapsto> 1] 0),
                        json_file = None\<rparr> = Inr c \<and>
         (rows = c \<or> (\<exists>k. k \<noteq> [] \<and> rows = c(k \<mapsto> count_of c k + 1)))))"
proof -
  have t: "\<forall>m\<in>set [python_event, rust_event]. str_keyword m"
    by (simp add: str_keyword_def python_event_def rust_event_def dict_get_def)
  have h: "\<lparr>sqlite_file = Some (Keyword_counts [str ''python'' \<mapsto> 1] 0), json_file = None\<rparr>
     \<in> set (main_points [python_event, rust_event] prior_run)"
    by (simp add: main_points_def startup_eq process_points_def process_message_def
      python_event_def rust_event_def dict_get_def update_keyword_count_def connect_def
      bind_keyword_def update_json_file_def update_json_file_steps_def load_counts_def
      new_counts_def open_w_def json_dump_def)
  from durable_store_leads_by_at_most_one [OF t h] t h show ?thesis by simp
qed

text \<open>
  C8. The startup of \<open>main\<close>, run twice in a row, leaves the same state as run
  once, and both stores are empty after the first and after the second time.
\<close>

theorem startup_idempotent:
  "startup (startup fs) = startup fs \<and>
   db_counts (startup fs) = Some Map.empty \<and> load_counts (startup fs) = Inr Map.empty \<and>
   db_counts (startup (startup fs)) = Some Map.empty \<and>
   load_counts (startup (startup fs)) = Inr Map.empty"
  by (simp add: startup_eq db_counts_def load_counts_def)

theorem startup_idempotent_witness:
  "startup (startup prior_run) = startup prior_run \<and>
   db_counts (startup (startup prior_run)) = Some Map.empty \<and>
   load_counts (startup (startup prior_run)) = Inr Map.empty"
  using startup_idempotent [of prior_run] by simp

text \<open>
  C9 as stated does not hold: \<open>update_json_file\<close> rewrites the file in place. After
  \<open>open(json_path, "w")\<close> and before the dump, the file is empty: it holds neither
  the document of before nor the new one, and \<open>json.load\<close> fails on it.
\<close>

theorem snapshot_write_not_atomic_counterexample:
  "json_file (update_json_file_steps prior_run (JStr (str ''python'')) ! 0) = Some Truncated \<and>
   json_file (update_json_file_steps prior_run (JStr (str ''python'')) ! 0) \<noteq>
     json_file prior_run \<and>
   json_file (update_json_file_steps prior_run (JStr (str ''python'')) ! 0) \<noteq>
     json_file (update_json_file_steps prior_run (JStr (str ''python'')) ! 1) \<and>
   load_counts (update_json_file_steps prior_run (JStr (str ''python'')) ! 0) =
     Inl JSONDecodeError"
  by (simp add: update_json_file_steps_def load_counts_def new_counts_def prior_run_def
      open_w_def json_dump_def)

text \<open>
  C9, amended. An update of the JSON file that returns has emptied the file first and
  has then written the whole new document: the loaded counts with one more occurrence of
  a string keyword, or with the count 1 under the text of a keyword of another type. The
  file holds a complete document when the update returns, not in between.
\<close>

theorem snapshot_rewritten_in_place:
  assumes "update_json_file fs keyword = Inr fs'"
  shows "update_json_file_steps fs keyword = [open_w fs, fs'] \<and>
         json_file (open_w fs) = Some Truncated \<and>
         load_counts (open_w fs) = Inl JSONDecodeError \<and>
         (\<exists>c. load_counts fs = Inr c \<and>
              json_file fs' =
                Some (Document
                  (case keyword of
                     JStr k \<Rightarrow> c(k \<mapsto> count_of c k + 1)
                   | _ \<Rightarrow> c(json_key keyword \<mapsto> 1))))"
proof -
  from assms obtain c c' where l: "load_counts fs = Inr c"
    and n: "new_counts c keyword = Inr c'" and f: "fs' = json_dump c' (open_w fs)"
    by (auto simp: update_json_file_def split: sum.splits)
  from n have "c' = (case keyword of JStr k \<Rightarrow> c(k \<mapsto> count_of c k + 1)
      | _ \<Rightarrow> c(json_key keyword \<mapsto> 1))"
    by (cases keyword) (auto simp: new_counts_def count_of_def)
  with l f show ?thesis
    using update_json_file_steps_result [OF assms]
    by (simp add: open_w_def json_dump_def load_counts_def)
qed

theorem snapshot_rewritten_in_place_witness:
  "update_json_file prior_run (JStr (str ''python'')) =
     Inr (prior_run\<lparr>json_file := Some (Document [str ''python'' \<mapsto> 6])\<rparr>) \<and>
   update_json_file_steps prior_run (JStr (str ''python'')) =
     [open_w prior_run, prior_run\<lparr>json_file := Some (Document [str ''python'' \<mapsto> 6])\<rparr>]"
proof -
  have h: "update_json_file prior_run (JStr (str ''python'')) =
     Inr (prior_run\<lparr>json_file := Some (Document [str ''python'' \<mapsto> 6])\<rparr>)"
    by (simp add: update_json_file_def load_counts_def new_counts_def prior_run_def
        open_w_def json_dump_def)
  from snapshot_rewritten_in_place [OF h] h show ?thesis by simp
qed

text \<open>
  C10. A message whose \<open>keyword_mentioned\<close> is present and not truthy (\<open>None\<close>,
  \<open>False\<close>, a zero, an empty string, list or dict) makes \<open>process_message\<close>
  return with both files unchanged and without a store update.
\<close>

theorem falsy_keyword_leaves_stores_unchanged:
  assumes "map_of m (str ''keyword_mentioned'') = Some v" "\<not> truthy v"
  shows "process_message m fs = Inr fs \<and> process_points m fs = []"
  using assms by (simp add: process_falsy points_falsy dict_get_def)

theorem falsy_keyword_leaves_stores_unchanged_witness:
  "map_of [(str ''keyword_mentioned'', JNull)] (str ''keyword_mentioned'') = Some JNull \<and>
   \<not> truthy JNull \<and>
   process_message [(str ''keyword_mentioned'', JNull)] prior_run = Inr prior_run \<and>
   process_message [(str ''keyword_mentioned'', JInt 0)] prior_run = Inr prior_run \<and>
   process_message [(str ''keyword_mentioned'', JBool False)] prior_run = Inr prior_run \<and>
   process_message [(str ''keyword_mentioned'', JFloat 0x8000000000000000)] prior_run =
     Inr prior_run"
  using falsy_keyword_leaves_stores_unchanged [of "[(str ''keyword_mentioned'', JNull)]" JNull prior_run]
    falsy_keyword_leaves_stores_unchanged [of "[(str ''keyword_mentioned'', JInt 0)]" "JInt 0" prior_run]
    falsy_keyword_leaves_stores_unchanged [of "[(str ''keyword_mentioned'', JBool False)]" "JBool False" prior_run]
    falsy_keyword_leaves_stores_unchanged [of "[(str ''keyword_mentioned'', JFloat 0x8000000000000000)]" "JFloat 0x8000000000000000" prior_run]
  by simp

end
